theory Spec2Isabelle
  imports Complex_Main
begin

section \<open>Data model\<close>

subsection \<open>Weapon profiles (core/plugin\_api.py)\<close>

text \<open>
  The dataclass \<^verbatim>\<open>WeaponConfig\<close>. Python floats are idealised as reals: the
  properties below are about the formulas the engine evaluates, not about rounding error.
\<close>

record WeaponConfig =
  name :: string
  defaultPull :: real
  initialDuration :: real
  steadyPull :: real
  sleepTime :: int
  acceleration :: real

text \<open>\<^verbatim>\<open>WeaponConfig(name=n)\<close>: every other field takes the dataclass default.\<close>

definition WeaponConfig_defaults :: "string \<Rightarrow> WeaponConfig" where
  "WeaponConfig_defaults n =
     \<lparr>name = n, defaultPull = 2.0, initialDuration = 0.5, steadyPull = 1.6,
      sleepTime = 8, acceleration = 200.0\<rparr>"

text \<open>The exceptions that the modelled code can meet.\<close>

datatype error = ZeroDivisionError | ValueError | IndexError | OSError | CalcError

text \<open>
  A custom pull function \<^verbatim>\<open>(elapsed, count) -> float\<close>; \<open>Inl\<close> stands for any
  exception raised by the call or by the conversion \<^verbatim>\<open>float(...)\<close> of its result.
\<close>

type_synonym calc = "real \<Rightarrow> int \<Rightarrow> error + real"

subsection \<open>Python primitives\<close>

text \<open>\<^verbatim>\<open>int(x)\<close> on a float truncates towards zero.\<close>

definition py_int :: "real \<Rightarrow> int" where
  "py_int x = (if 0 \<le> x then \<lfloor>x\<rfloor> else \<lceil>x\<rceil>)"

text \<open>\<^verbatim>\<open>round(x)\<close> on a float: the nearest integer, a tie going to the even one.\<close>

definition py_round :: "real \<Rightarrow> int" where
  "py_round x =
     (let f = \<lfloor>x\<rfloor>; d = x - of_int f
      in if d < 1 / 2 then f else if 1 / 2 < d then f + 1 else if even f then f else f + 1)"

text \<open>\<^verbatim>\<open>d.get(key, default)\<close> followed by \<^verbatim>\<open>bool(...)\<close>: values are kept as their truth value.\<close>

definition dict_get :: "(string \<rightharpoonup> bool) \<Rightarrow> string \<Rightarrow> bool \<Rightarrow> bool" where
  "dict_get d k dflt = (case d k of None \<Rightarrow> dflt | Some v \<Rightarrow> v)"

text \<open>
  Characters are the code points below 256. \<^verbatim>\<open>str.isspace\<close> and \<^verbatim>\<open>str.lower\<close> on
  that range.
\<close>

definition is_space :: "char \<Rightarrow> bool" where
  "is_space c = ((of_char c :: nat) \<in> {9, 10, 11, 12, 13, 28, 29, 30, 31, 32, 133, 160})"

definition py_lower :: "char \<Rightarrow> char" where
  "py_lower c =
     (let n = (of_char c :: nat)
      in if (65 \<le> n \<and> n \<le> 90) \<or> (192 \<le> n \<and> n \<le> 222 \<and> n \<noteq> 215)
         then char_of (n + 32) else c)"

definition strip :: "string \<Rightarrow> string" where
  "strip s = rev (dropWhile is_space (rev (dropWhile is_space s)))"

text \<open>
  \<^verbatim>\<open>random.randint(a, b)\<close>: raises on an empty range, otherwise returns the value \<open>r\<close>
  that the generator draws (an input of the model, \<open>a \<le> r \<le> b\<close> by the library's
  contract).
\<close>

definition randint :: "int \<Rightarrow> int \<Rightarrow> int \<Rightarrow> error + int" where
  "randint a b r = (if b < a then Inl ValueError else Inr r)"

section \<open>The synthetic-input guard (app.py, class State)\<close>

text \<open>
  Of the attributes of \<^verbatim>\<open>State\<close> only \<^verbatim>\<open>_synth_guard\<close> is read or written by the
  three guard methods. Python integers are unbounded, hence \<open>int\<close>.
\<close>

record State =
  synth_guard :: int

definition State_init :: State where
  "State_init = \<lparr>synth_guard = 0\<rparr>"

definition begin_synth :: "State \<Rightarrow> State" where
  "begin_synth s = s\<lparr>synth_guard := synth_guard s + 1\<rparr>"

definition end_synth :: "State \<Rightarrow> State" where
  "end_synth s = (if synth_guard s > 0 then s\<lparr>synth_guard := synth_guard s - 1\<rparr> else s)"

definition is_synth :: "State \<Rightarrow> bool" where
  "is_synth s = (synth_guard s > 0)"

text \<open>A sequence of guard calls, applied in order.\<close>

datatype guard_call = Begin | End

fun guard_step :: "State \<Rightarrow> guard_call \<Rightarrow> State" where
  "guard_step s Begin = begin_synth s"
| "guard_step s End = end_synth s"

definition guard_run :: "State \<Rightarrow> guard_call list \<Rightarrow> State" where
  "guard_run s cs = foldl guard_step s cs"

text \<open>
  ``Every begin is eventually matched by an end'': each \<open>Begin\<close> can be paired with an
  \<open>End\<close> of its own later in the sequence. \<open>spare_ends cs\<close> pairs the calls off from the
  right and counts the \<open>End\<close>s left over; it is \<open>None\<close> when some \<open>Begin\<close> finds no
  partner.
\<close>

fun spare_ends :: "guard_call list \<Rightarrow> nat option" where
  "spare_ends [] = Some 0"
| "spare_ends (End # cs) = map_option Suc (spare_ends cs)"
| "spare_ends (Begin # cs) =
     (case spare_ends cs of Some (Suc n) \<Rightarrow> Some n | _ \<Rightarrow> None)"

definition every_begin_matched :: "guard_call list \<Rightarrow> bool" where
  "every_begin_matched cs = (spare_ends cs \<noteq> None)"

section \<open>The recoil engine (core/engine.py, class RecoilEngine)\<close>

subsection \<open>The input backend and the engine's attributes\<close>

text \<open>
  The engine only ever calls \<^verbatim>\<open>move_mouse\<close>, \<^verbatim>\<open>key_down\<close> and \<^verbatim>\<open>key_up\<close> of its
  backend (\<^verbatim>\<open>_press_key_once\<close> has no caller). The backend is modelled by the record
  of the calls made to it, oldest first, each with a flag telling whether it returned
  normally. Whether a call raises is decided by \<open>faulty\<close>, from the calls made so far and
  the call at hand: the engine wraps every backend call in \<^verbatim>\<open>try/except\<close>, and both
  branches are kept.
\<close>

datatype call = MoveMouse int int | KeyDown string | KeyUp string

type_synonym calls = "(call \<times> bool) list"

datatype thread_state = NoThread | Alive | Finished

record engine =
  running :: bool
  thread :: thread_state
  trigger_key :: string
  trigger_held :: bool
  calls :: calls
  faulty :: "calls \<Rightarrow> call \<Rightarrow> bool"
  sleeps :: "real list"

text \<open>\<^verbatim>\<open>RecoilEngine.__init__\<close>, for a backend with fault behaviour \<open>F\<close>.\<close>

definition engine_init :: "(calls \<Rightarrow> call \<Rightarrow> bool) \<Rightarrow> engine" where
  "engine_init F =
     \<lparr>running = False, thread = NoThread, trigger_key = ''p'', trigger_held = False,
      calls = [], faulty = F, sleeps = []\<rparr>"

subsection \<open>Methods as sequences of atomic steps\<close>

text \<open>
  The engine's attributes are shared by the caller's thread and the loop thread, with no
  lock anywhere in the source. A method is therefore written as a sequence of atomic
  steps, one for each read or write of an attribute and one for each backend call or
  sleep: \<open>Atom u k\<close> changes the engine by \<open>u\<close> and goes on with \<open>k s\<close>, where \<open>s\<close> is the
  engine as the step found it. Local computation between two such steps belongs to the
  step before it.
\<close>

datatype 'a thr = Ret 'a | Atom "engine \<Rightarrow> engine" "engine \<Rightarrow> 'a thr"

primrec bind :: "'a thr \<Rightarrow> ('a \<Rightarrow> 'b thr) \<Rightarrow> 'b thr" where
  "bind (Ret a) f = f a"
| "bind (Atom u k) f = Atom u (\<lambda>s. bind (k s) f)"

text \<open>Running a method with no other thread in between: \<open>run\<close>, and its final engine \<open>exec\<close>.\<close>

primrec run :: "'a thr \<Rightarrow> engine \<Rightarrow> 'a \<times> engine" where
  "run (Ret a) s = (a, s)"
| "run (Atom u k) s = run (k s) (u s)"

definition exec :: "'a thr \<Rightarrow> engine \<Rightarrow> engine" where
  "exec m s = snd (run m s)"

definition load :: "(engine \<Rightarrow> 'a) \<Rightarrow> 'a thr" where
  "load f = Atom (\<lambda>s. s) (\<lambda>s. Ret (f s))"

definition store :: "(engine \<Rightarrow> engine) \<Rightarrow> unit thr" where
  "store u = Atom u (\<lambda>_. Ret ())"

text \<open>A backend call: recorded with its outcome, which is also returned (\<open>True\<close>: no exception).\<close>

definition backend_call :: "call \<Rightarrow> bool thr" where
  "backend_call c =
     Atom (\<lambda>s. s\<lparr>calls := calls s @ [(c, \<not> faulty s (calls s) c)]\<rparr>)
          (\<lambda>s. Ret (\<not> faulty s (calls s) c))"

definition sleep :: "real \<Rightarrow> unit thr" where
  "sleep d = store (\<lambda>s. s\<lparr>sleeps := sleeps s @ [d]\<rparr>)"

text \<open>\<^verbatim>\<open>_ensure_trigger_down\<close> (lines 158-165): the flag is set only when \<^verbatim>\<open>key_down\<close> returned.\<close>

definition ensure_trigger_down :: "unit thr" where
  "ensure_trigger_down =
     bind (load trigger_held) (\<lambda>held.
       if held then Ret ()
       else bind (load trigger_key) (\<lambda>k.
            bind (backend_call (KeyDown k)) (\<lambda>ok.
              if ok then store (\<lambda>s. s\<lparr>trigger_held := True\<rparr>) else Ret ())))"

text \<open>\<^verbatim>\<open>release_trigger\<close> (lines 167-176): the \<^verbatim>\<open>finally\<close> clause clears the flag whatever \<^verbatim>\<open>key_up\<close> did.\<close>

definition release_trigger :: "unit thr" where
  "release_trigger =
     bind (load trigger_held) (\<lambda>held.
       if \<not> held then Ret ()
       else bind (load trigger_key) (\<lambda>k.
            bind (backend_call (KeyUp k)) (\<lambda>_.
              store (\<lambda>s. s\<lparr>trigger_held := False\<rparr>))))"

text \<open>
  Lines 142-147 of \<^verbatim>\<open>set_trigger_key\<close>: the key that the argument stands for. The index
  \<^verbatim>\<open>[0]\<close> raises on an empty string; the first line makes sure it never meets one.
\<close>

definition normalise_key :: "string option \<Rightarrow> error + string" where
  "normalise_key key =
     (let key1 = (case key of None \<Rightarrow> ''p'' | Some s \<Rightarrow> if s = [] then ''p'' else s)
      in case key1 of
           [] \<Rightarrow> Inl IndexError
         | c # _ \<Rightarrow>
             (let key2 = [c];
                  key3 = (if strip key2 = [] then ''p'' else key2)
              in Inr (map py_lower key3)))"

text \<open>
  \<^verbatim>\<open>set_trigger_key\<close> (lines 140-156). An exception in the first lines would leave the
  engine as it was.
\<close>

definition set_trigger_key :: "string option \<Rightarrow> unit thr" where
  "set_trigger_key key =
     (case normalise_key key of
        Inl _ \<Rightarrow> Ret ()
      | Inr k \<Rightarrow>
          bind (load trigger_key) (\<lambda>current.
            if k = current then Ret ()
            else bind (load trigger_held) (\<lambda>was_held.
                 bind (if was_held then release_trigger else Ret ()) (\<lambda>_.
                 bind (store (\<lambda>s. s\<lparr>trigger_key := k\<rparr>)) (\<lambda>_.
                   if was_held then ensure_trigger_down else Ret ())))))"

text \<open>\<^verbatim>\<open>start\<close> (lines 120-127).\<close>

definition start :: "unit thr" where
  "start =
     bind (load running) (\<lambda>r.
       if r then Ret ()
       else bind (store (\<lambda>s. s\<lparr>running := True\<rparr>)) (\<lambda>_.
            store (\<lambda>s. s\<lparr>thread := Alive\<rparr>)))"

text \<open>\<^verbatim>\<open>stop\<close> up to its \<^verbatim>\<open>join\<close> (lines 131-132).\<close>

definition stop_head :: "unit thr" where
  "stop_head = bind (store (\<lambda>s. s\<lparr>running := False\<rparr>)) (\<lambda>_. release_trigger)"

subsection \<open>The loop\<close>

text \<open>
  What one iteration of \<^verbatim>\<open>_loop\<close> reads from outside the engine: the outcome of the three
  accessor calls of lines 205-207 (\<open>PollError\<close> when any of them raises), and the two
  readings of \<^verbatim>\<open>time.perf_counter()\<close> at lines 228 and 241.
\<close>

datatype poll =
  PollError
| Polled "(string \<rightharpoonup> bool) option" "WeaponConfig option" "calc option"

record tick_env =
  polled :: poll
  clock_start :: real
  clock_now :: real

text \<open>The loop's local variables that live across iterations.\<close>

record locals =
  count :: int
  shooting :: bool
  start_time :: real

definition locals_init :: locals where
  "locals_init = \<lparr>count = 0, shooting = False, start_time = 0\<rparr>"

text \<open>Lines 204-212: the values of \<^verbatim>\<open>st\<close>, \<^verbatim>\<open>cfg\<close> and \<^verbatim>\<open>calc\<close>.\<close>

fun poll_values :: "poll \<Rightarrow> (string \<rightharpoonup> bool) \<times> WeaponConfig \<times> calc option" where
  "poll_values PollError = (Map.empty, WeaponConfig_defaults ''Default'', None)"
| "poll_values (Polled st cfg calc) =
     ((case st of None \<Rightarrow> Map.empty | Some d \<Rightarrow> d),
      (case cfg of None \<Rightarrow> WeaponConfig_defaults ''Default'' | Some w \<Rightarrow> w),
      calc)"

text \<open>Lines 246-250: the built-in curve. The division raises when the divisor is zero.\<close>

definition default_pull :: "WeaponConfig \<Rightarrow> real \<Rightarrow> int \<Rightarrow> error + real" where
  "default_pull cfg elapsed n =
     (if elapsed < initialDuration cfg
      then (if acceleration cfg = 0 then Inl ZeroDivisionError
            else Inr (defaultPull cfg + of_int n / acceleration cfg))
      else Inr (steadyPull cfg))"

text \<open>Lines 242-253: the pull of a tick, with the \<^verbatim>\<open>except\<close> clause's fallback.\<close>

definition compute_pull :: "calc option \<Rightarrow> WeaponConfig \<Rightarrow> real \<Rightarrow> int \<Rightarrow> real" where
  "compute_pull calc cfg elapsed n =
     (case (case calc of Some f \<Rightarrow> f elapsed n | None \<Rightarrow> default_pull cfg elapsed n) of
        Inr pull \<Rightarrow> pull
      | Inl _ \<Rightarrow> steadyPull cfg)"

text \<open>
  Lines 204-284: one iteration of the \<^verbatim>\<open>while\<close> loop, from the locals it starts with to
  the locals it ends with. Calls of the log sink are left out.
\<close>

definition loop_body :: "tick_env \<Rightarrow> locals \<Rightarrow> locals thr" where
  "loop_body env loc0 =
     (let (st, cfg, calc) = poll_values (polled env);
          fire_enabled = dict_get st ''fire_enabled'' True;
          right_hold = dict_get st ''right_hold'' False;
          left_hold = dict_get st ''left_hold'' False;
          press_key_enabled = dict_get st ''press_key_enabled'' True;
          should_fire = (fire_enabled \<and> right_hold \<and> left_hold)
      in
      bind (if \<not> press_key_enabled
            then bind (load trigger_held) (\<lambda>held. if held then release_trigger else Ret ())
            else Ret ()) (\<lambda>_.
      bind (if should_fire \<and> \<not> shooting loc0
            then bind (if press_key_enabled then ensure_trigger_down else Ret ()) (\<lambda>_.
                   Ret (loc0\<lparr>shooting := True, count := 0, start_time := clock_start env\<rparr>))
            else Ret loc0) (\<lambda>loc1.
      bind (if shooting loc1 \<and> should_fire
            then bind (if press_key_enabled then ensure_trigger_down else release_trigger) (\<lambda>_.
                 let n = count loc1 + 1;
                     elapsed = clock_now env - start_time loc1;
                     pull = compute_pull calc cfg elapsed n
                 in bind (backend_call (MoveMouse 0 (py_int pull))) (\<lambda>_.
                    bind (sleep (max 0.001 (of_int (sleepTime cfg) / 1000))) (\<lambda>_.
                      Ret (loc1\<lparr>count := n\<rparr>))))
            else Ret loc1) (\<lambda>loc2.
      bind (if shooting loc2 \<and> \<not> should_fire
            then bind release_trigger (\<lambda>_.
                   Ret (loc2\<lparr>shooting := False, count := 0, start_time := 0\<rparr>))
            else Ret loc2) (\<lambda>loc3.
      bind (if \<not> shooting loc3 then sleep 0.002 else Ret ()) (\<lambda>_.
        Ret loc3))))))"

text \<open>Line 287 and the end of the thread.\<close>

definition loop_exit :: "unit thr" where
  "loop_exit = bind release_trigger (\<lambda>_. store (\<lambda>s. s\<lparr>thread := Finished\<rparr>))"

subsection \<open>Which keys the engine has left down\<close>

text \<open>
  The keys for which a \<^verbatim>\<open>key_down\<close> has returned normally and no \<^verbatim>\<open>key_up\<close> has been
  issued since. A \<^verbatim>\<open>key_down\<close> that raised pressed nothing; a \<^verbatim>\<open>key_up\<close> counts as
  issued whatever its outcome.
\<close>

fun press :: "string set \<Rightarrow> call \<times> bool \<Rightarrow> string set" where
  "press K (KeyDown k, ok) = (if ok then insert k K else K)"
| "press K (KeyUp k, ok) = K - {k}"
| "press K (MoveMouse dx dy, ok) = K"

definition keys_down :: "calls \<Rightarrow> string set" where
  "keys_down cs = foldl press {} cs"

text \<open>The calls that an operation added to the backend's record.\<close>

definition new_calls :: "engine \<Rightarrow> engine \<Rightarrow> call list" where
  "new_calls s s' = map fst (drop (length (calls s)) (calls s'))"

subsection \<open>Calls and iterations taken one at a time\<close>

text \<open>
  The engine together with the loop thread's locals, for runs in which every method
  call and every loop iteration is finished before the next one begins. \<^verbatim>\<open>join\<close> then
  waits for the loop thread, which finds \<^verbatim>\<open>_running\<close> false at its next test, releases
  the trigger (line 287) and ends.
\<close>

datatype api = Start | Stop | SetTriggerKey "string option" | ReleaseTrigger

datatype event = Call api | Tick tick_env

record system =
  eng :: engine
  loc :: locals

definition system_init :: "(calls \<Rightarrow> call \<Rightarrow> bool) \<Rightarrow> system" where
  "system_init F = \<lparr>eng = engine_init F, loc = locals_init\<rparr>"

definition join :: "engine \<Rightarrow> engine" where
  "join e = (if thread e = Alive then exec loop_exit e else e)"

fun occur :: "system \<Rightarrow> event \<Rightarrow> system" where
  "occur s (Call Start) =
     (if running (eng s) then s else \<lparr>eng = exec start (eng s), loc = locals_init\<rparr>)"
| "occur s (Call Stop) = s\<lparr>eng := join (exec stop_head (eng s))\<rparr>"
| "occur s (Call (SetTriggerKey key)) = s\<lparr>eng := exec (set_trigger_key key) (eng s)\<rparr>"
| "occur s (Call ReleaseTrigger) = s\<lparr>eng := exec release_trigger (eng s)\<rparr>"
| "occur s (Tick env) =
     (if thread (eng s) \<noteq> Alive then s
      else if running (eng s)
      then (case run (loop_body env (loc s)) (eng s) of (l, e) \<Rightarrow> \<lparr>eng = e, loc = l\<rparr>)
      else s\<lparr>eng := exec loop_exit (eng s)\<rparr>)"

definition occur_all :: "system \<Rightarrow> event list \<Rightarrow> system" where
  "occur_all s evs = foldl occur s evs"

subsection \<open>The two threads interleaved\<close>

text \<open>
  The caller's thread is idle, inside a method (with the steps it still has to take, and
  whether a \<^verbatim>\<open>join\<close> follows them), or waiting in \<^verbatim>\<open>join\<close>. The loop thread is absent, at
  the test of its \<^verbatim>\<open>while\<close>, inside an iteration, or past the loop. A schedule says
  which thread takes the next atomic step; the loop thread is handed what it polls when
  it enters an iteration. \<^verbatim>\<open>join\<close> returns once the loop thread has ended (its timeout
  is not modelled). \<^verbatim>\<open>start\<close> is taken in one step: it touches \<^verbatim>\<open>_running\<close> and
  \<^verbatim>\<open>_thread\<close> only, which the loop thread never writes, and the new thread begins at the
  test of its \<^verbatim>\<open>while\<close> with fresh locals.
\<close>

datatype caller = Ready | Busy "unit thr" bool | Joining

datatype worker = Absent | Head locals | Body "locals thr" | Leaving "unit thr"

record config =
  shared :: engine
  ui :: caller
  lp :: worker

datatype move = Invoke api | Caller | Worker tick_env

definition config_init :: "(calls \<Rightarrow> call \<Rightarrow> bool) \<Rightarrow> config" where
  "config_init F = \<lparr>shared = engine_init F, ui = Ready, lp = Absent\<rparr>"

fun invoke :: "config \<Rightarrow> api \<Rightarrow> config" where
  "invoke c Start =
     (if running (shared c) then c
      else c\<lparr>shared := exec start (shared c), lp := Head locals_init\<rparr>)"
| "invoke c Stop = c\<lparr>ui := Busy stop_head True\<rparr>"
| "invoke c (SetTriggerKey key) = c\<lparr>ui := Busy (set_trigger_key key) False\<rparr>"
| "invoke c ReleaseTrigger = c\<lparr>ui := Busy release_trigger False\<rparr>"

fun step :: "config \<Rightarrow> move \<Rightarrow> config" where
  "step c (Invoke a) = (case ui c of Ready \<Rightarrow> invoke c a | _ \<Rightarrow> c)"
| "step c Caller =
     (case ui c of
        Ready \<Rightarrow> c
      | Busy (Atom u k) j \<Rightarrow> c\<lparr>shared := u (shared c), ui := Busy (k (shared c)) j\<rparr>
      | Busy (Ret _) j \<Rightarrow> c\<lparr>ui := (if j then Joining else Ready)\<rparr>
      | Joining \<Rightarrow> (if thread (shared c) = Alive then c else c\<lparr>ui := Ready\<rparr>))"
| "step c (Worker env) =
     (case lp c of
        Absent \<Rightarrow> c
      | Head l \<Rightarrow>
          (if running (shared c) then c\<lparr>lp := Body (loop_body env l)\<rparr>
           else c\<lparr>lp := Leaving loop_exit\<rparr>)
      | Body (Atom u k) \<Rightarrow> c\<lparr>shared := u (shared c), lp := Body (k (shared c))\<rparr>
      | Body (Ret l) \<Rightarrow> c\<lparr>lp := Head l\<rparr>
      | Leaving (Atom u k) \<Rightarrow> c\<lparr>shared := u (shared c), lp := Leaving (k (shared c))\<rparr>
      | Leaving (Ret _) \<Rightarrow> c\<lparr>lp := Absent\<rparr>)"

definition schedule :: "config \<Rightarrow> move list \<Rightarrow> config" where
  "schedule c ms = foldl step c ms"

section \<open>The auto-click thread (core/engine.py, class AutoClickThread)\<close>

text \<open>
  The thread's attributes, the \<^verbatim>\<open>State\<close> object behind its \<^verbatim>\<open>begin_synth\<close> and
  \<^verbatim>\<open>end_synth\<close> callbacks, the mouse events it has synthesised and the sleeps it has
  taken (in seconds).
\<close>

datatype mouse_event = LeftDown | LeftUp

record AutoClickThread =
  delay_ms :: int
  rand_ms :: int
  clicking :: bool
  synthing :: bool
  last_synth_ts :: real
  hold_shadow :: bool
  app_state :: State
  mouse_events :: "mouse_event list"
  naps :: "real list"

definition AutoClickThread_init :: "int \<Rightarrow> int \<Rightarrow> State \<Rightarrow> AutoClickThread" where
  "AutoClickThread_init d r st =
     \<lparr>delay_ms = d, rand_ms = r, clicking = False, synthing = False, last_synth_ts = 0,
      hold_shadow = False, app_state = st, mouse_events = [], naps = []\<rparr>"

text \<open>
  What one iteration of \<^verbatim>\<open>run\<close> reads from outside: the state dictionary, the result of
  \<^verbatim>\<open>_physical_left_pressed\<close> (false when the query raised), the clock at line 362,
  whether the two \<^verbatim>\<open>mouse_event\<close> calls raise, the clock at line 336, and the draw of
  \<^verbatim>\<open>random.randint\<close>.
\<close>

record click_env =
  state_dict :: "string \<rightharpoonup> bool"
  physical_pressed :: bool
  perf_now :: real
  down_raises :: bool
  up_raises :: bool
  perf_stamp :: real
  drawn :: int

text \<open>Lines 304-316: the wrappers around the guard callbacks.\<close>

definition wrap_begin :: "AutoClickThread \<Rightarrow> AutoClickThread" where
  "wrap_begin t = t\<lparr>synthing := True, app_state := begin_synth (app_state t)\<rparr>"

definition wrap_end :: "AutoClickThread \<Rightarrow> AutoClickThread" where
  "wrap_end t = t\<lparr>app_state := end_synth (app_state t), synthing := False\<rparr>"

text \<open>
  \<^verbatim>\<open>click_once\<close> (lines 326-336). The \<^verbatim>\<open>finally\<close> clause runs on every path; an exception
  of a \<^verbatim>\<open>mouse_event\<close> call is returned beside the thread's state, as it leaves the
  method after the clause.
\<close>

definition click_once :: "click_env \<Rightarrow> AutoClickThread \<Rightarrow> AutoClickThread \<times> error option" where
  "click_once env t =
     (let t1 = wrap_begin t;
          (t2, raised) =
            (if down_raises env then (t1, Some OSError)
             else if up_raises env
             then (t1\<lparr>mouse_events := mouse_events t1 @ [LeftDown]\<rparr>, Some OSError)
             else (t1\<lparr>mouse_events := mouse_events t1 @ [LeftDown, LeftUp]\<rparr>, None));
          t3 = t2\<lparr>naps := naps t2 @ [0.002]\<rparr>;
          t4 = wrap_end t3
      in (t4\<lparr>last_synth_ts := perf_stamp env\<rparr>, raised))"

text \<open>Lines 364-367: the shadow-hold latch.\<close>

definition update_hold_shadow :: "bool \<Rightarrow> bool \<Rightarrow> real \<Rightarrow> AutoClickThread \<Rightarrow> AutoClickThread" where
  "update_hold_shadow user_hold physical_hold now t =
     (if user_hold then t\<lparr>hold_shadow := True\<rparr>
      else if \<not> physical_hold \<and> \<not> synthing t \<and> now - last_synth_ts t > 0.03
      then t\<lparr>hold_shadow := False\<rparr>
      else t)"

text \<open>Line 376: the delay between two clicks, in milliseconds.\<close>

definition click_delay :: "int \<Rightarrow> int \<Rightarrow> int \<Rightarrow> error + int" where
  "click_delay d j r =
     (case randint (- j) j r of Inl e \<Rightarrow> Inl e | Inr x \<Rightarrow> Inr (max 1 (d + x)))"

text \<open>
  Lines 358-382: one iteration of \<^verbatim>\<open>run\<close>. An exception that nothing catches ends the
  thread; it is returned beside the state it leaves.
\<close>

definition run_tick :: "click_env \<Rightarrow> AutoClickThread \<Rightarrow> AutoClickThread \<times> error option" where
  "run_tick env t =
     (let st = state_dict env;
          auto_enabled = dict_get st ''auto_click_enabled'' False;
          user_hold = dict_get st ''left_hold'' False;
          physical_hold = physical_pressed env;
          now = perf_now env;
          t1 = update_hold_shadow user_hold physical_hold now t;
          left_hold = (physical_hold \<or> hold_shadow t1)
      in if auto_enabled \<and> left_hold
         then (case click_once env (t1\<lparr>clicking := True\<rparr>) of
                 (t2, Some e) \<Rightarrow> (t2, Some e)
               | (t2, None) \<Rightarrow>
                   (case click_delay (delay_ms t2) (rand_ms t2) (drawn env) of
                      Inl e \<Rightarrow> (t2, Some e)
                    | Inr delay \<Rightarrow> (t2\<lparr>naps := naps t2 @ [of_int delay / 1000]\<rparr>, None)))
         else (t1\<lparr>clicking := False, naps := naps t1 @ [0.01]\<rparr>, None))"

section \<open>Observations and sample inputs\<close>

text \<open>What the properties below read off a run: kinds of backend call, and the values a
  firing iteration works with (lines 215-220, 226-228 and 240-241).\<close>

fun is_key_down :: "call \<Rightarrow> bool" where
  "is_key_down (KeyDown k) = True"
| "is_key_down (KeyUp k) = False"
| "is_key_down (MoveMouse dx dy) = False"

fun is_move :: "call \<Rightarrow> bool" where
  "is_move (MoveMouse dx dy) = True"
| "is_move (KeyDown k) = False"
| "is_move (KeyUp k) = False"

definition fires :: "tick_env \<Rightarrow> bool" where
  "fires env =
     (case poll_values (polled env) of (st, cfg, calc) \<Rightarrow>
        dict_get st ''fire_enabled'' True \<and> dict_get st ''right_hold'' False
        \<and> dict_get st ''left_hold'' False)"

definition tick_count :: "tick_env \<Rightarrow> locals \<Rightarrow> int" where
  "tick_count env l = (if shooting l then count l else 0) + 1"

definition tick_elapsed :: "tick_env \<Rightarrow> locals \<Rightarrow> real" where
  "tick_elapsed env l = clock_now env - (if shooting l then start_time l else clock_start env)"

definition tick_pull :: "tick_env \<Rightarrow> locals \<Rightarrow> real" where
  "tick_pull env l =
     (case poll_values (polled env) of (st, cfg, calc) \<Rightarrow>
        compute_pull calc cfg (tick_elapsed env l) (tick_count env l))"

text \<open>A backend that never raises; state dictionaries; iterations at a given clock reading.\<close>

definition sound :: "calls \<Rightarrow> call \<Rightarrow> bool" where
  "sound cs c = False"

definition firing :: "string \<rightharpoonup> bool" where
  "firing = [''fire_enabled'' \<mapsto> True, ''right_hold'' \<mapsto> True, ''left_hold'' \<mapsto> True,
             ''press_key_enabled'' \<mapsto> True]"

definition firing_tick :: "real \<Rightarrow> tick_env" where
  "firing_tick t = \<lparr>polled = Polled (Some firing) None None, clock_start = t, clock_now = t\<rparr>"

definition failing_calc :: calc where
  "failing_calc elapsed n = Inl CalcError"

definition failing_tick :: "real \<Rightarrow> tick_env" where
  "failing_tick t =
     \<lparr>polled = Polled (Some firing) None (Some failing_calc), clock_start = t, clock_now = t\<rparr>"

definition holding :: "string \<rightharpoonup> bool" where
  "holding = [''auto_click_enabled'' \<mapsto> True, ''left_hold'' \<mapsto> True]"

definition pressing :: "string \<rightharpoonup> bool" where
  "pressing = [''auto_click_enabled'' \<mapsto> False, ''left_hold'' \<mapsto> True]"

definition idle :: "string \<rightharpoonup> bool" where
  "idle = [''auto_click_enabled'' \<mapsto> True, ''left_hold'' \<mapsto> False]"

definition click_env_at :: "(string \<rightharpoonup> bool) \<Rightarrow> real \<Rightarrow> int \<Rightarrow> click_env" where
  "click_env_at st t r =
     \<lparr>state_dict = st, physical_pressed = False, perf_now = t, down_raises = False,
      up_raises = False, perf_stamp = t, drawn = r\<rparr>"

section \<open>Invariants and schedules\<close>

text \<open>
  The engine's held flag agrees with the backend's record: while the flag is set, the
  trigger key is down and no other key is; while it is clear, no key is down.
\<close>

definition balanced :: "engine \<Rightarrow> bool" where
  "balanced e = (keys_down (calls e) = (if trigger_held e then {trigger_key e} else {}))"

text \<open>A method keeps a property of the engine when, run to its end from an engine that
  has it, it ends in one that has it.\<close>

definition keeps :: "(engine \<Rightarrow> bool) \<Rightarrow> 'a thr \<Rightarrow> bool" where
  "keeps P m = (\<forall>s. P s \<longrightarrow> P (snd (run m s)))"

text \<open>
  A schedule of the two threads. The engine is started and the loop thread runs a first
  firing iteration (nine steps: the test of the \<^verbatim>\<open>while\<close>, seven reads, writes and
  backend calls, the return to the test). The caller enters \<^verbatim>\<open>set_trigger_key('q')\<close> and
  takes six steps, up to the end of \<^verbatim>\<open>release_trigger\<close> at line 152. The loop thread runs
  a second firing iteration (eight steps). The caller finishes \<^verbatim>\<open>set_trigger_key\<close> from
  line 153 (three steps), then calls \<^verbatim>\<open>stop\<close> and reaches its \<^verbatim>\<open>join\<close> (six steps). The
  loop thread leaves the loop and ends (four steps), and \<^verbatim>\<open>join\<close> returns.
\<close>

definition race :: "move list" where
  "race =
     [Invoke Start,
      Worker (firing_tick 10), Worker (firing_tick 10), Worker (firing_tick 10),
      Worker (firing_tick 10), Worker (firing_tick 10), Worker (firing_tick 10),
      Worker (firing_tick 10), Worker (firing_tick 10), Worker (firing_tick 10),
      Invoke (SetTriggerKey (Some ''q'')),
      Caller, Caller, Caller, Caller, Caller, Caller,
      Worker (firing_tick 10.01), Worker (firing_tick 10.01), Worker (firing_tick 10.01),
      Worker (firing_tick 10.01), Worker (firing_tick 10.01), Worker (firing_tick 10.01),
      Worker (firing_tick 10.01), Worker (firing_tick 10.01),
      Caller, Caller, Caller,
      Invoke Stop,
      Caller, Caller, Caller, Caller, Caller, Caller,
      Worker (firing_tick 10.02), Worker (firing_tick 10.02), Worker (firing_tick 10.02),
      Worker (firing_tick 10.02),
      Caller]"

text \<open>The same schedule up to the moment the loop thread has finished its first
  iteration, and up to the moment \<^verbatim>\<open>set_trigger_key\<close> has returned.\<close>

definition before_rebind :: "move list" where
  "before_rebind = take 10 race"

definition rebind_race :: "move list" where
  "rebind_race = take 28 race"

text \<open>
  Another schedule: \<^verbatim>\<open>stop\<close> arrives in the middle of the first firing iteration, after
  the loop thread's \<^verbatim>\<open>key_down\<close> and before it sets the flag (four steps of the loop
  thread, then three of the caller, up to its \<^verbatim>\<open>join\<close>). The loop thread finishes the
  iteration, finds \<^verbatim>\<open>_running\<close> false, releases the trigger and ends (twelve steps), and
  \<^verbatim>\<open>join\<close> returns.
\<close>

definition stop_mid_tick :: "move list" where
  "stop_mid_tick =
     [Invoke Start,
      Worker (firing_tick 10), Worker (firing_tick 10), Worker (firing_tick 10),
      Worker (firing_tick 10),
      Invoke Stop,
      Caller, Caller, Caller,
      Worker (firing_tick 10), Worker (firing_tick 10), Worker (firing_tick 10),
      Worker (firing_tick 10), Worker (firing_tick 10), Worker (firing_tick 10),
      Worker (firing_tick 10), Worker (firing_tick 10), Worker (firing_tick 10),
      Worker (firing_tick 10), Worker (firing_tick 10), Worker (firing_tick 10),
      Caller]"

text \<open>The interleaved configuration between two calls or iterations: the caller idle, the
  loop thread, if alive, at the test of its \<^verbatim>\<open>while\<close>.\<close>

definition conf :: "system \<Rightarrow> config" where
  "conf s =
     \<lparr>shared = eng s, ui = Ready,
      lp = (if thread (eng s) = Alive then Head (loc s) else Absent)\<rparr>"

section \<open>Properties of the synthetic-input guard\<close>

lemma guard_step_nonneg: "0 \<le> synth_guard s \<Longrightarrow> 0 \<le> synth_guard (guard_step s c)"
  by (cases c) (simp_all add: begin_synth_def end_synth_def)

lemma guard_run_nonneg: "0 \<le> synth_guard s \<Longrightarrow> 0 \<le> synth_guard (guard_run s cs)"
  unfolding guard_run_def
  by (induction cs arbitrary: s) (simp_all add: guard_step_nonneg)

text \<open>With every begin matched, the spare ends are what the sequence takes off the counter,
  as far as it can.\<close>

lemma guard_run_matched:
  "spare_ends cs = Some n \<Longrightarrow> 0 \<le> synth_guard s \<Longrightarrow>
   synth_guard (guard_run s cs) = max 0 (synth_guard s - int n)"
proof (induction cs arbitrary: s n)
  case Nil
  then show ?case by (simp add: guard_run_def)
next
  case (Cons c cs)
  show ?case
  proof (cases c)
    case Begin
    with Cons.prems obtain m where m: "spare_ends cs = Some (Suc m)" "n = m"
      by (auto split: option.splits nat.splits)
    have "synth_guard (guard_run (begin_synth s) cs)
        = max 0 (synth_guard (begin_synth s) - int (Suc m))"
      using Cons.IH [OF m(1)] Cons.prems(2) by (simp add: begin_synth_def)
    then show ?thesis using Begin m by (simp add: guard_run_def begin_synth_def)
  next
    case End
    with Cons.prems obtain m where m: "spare_ends cs = Some m" "n = Suc m"
      by auto
    have "0 \<le> synth_guard (end_synth s)"
      using Cons.prems(2) by (simp add: end_synth_def)
    from Cons.IH [OF m(1) this]
    show ?thesis using End m Cons.prems(2) by (auto simp add: guard_run_def end_synth_def)
  qed
qed

lemma click_once_frame:
  "hold_shadow (fst (click_once env t)) = hold_shadow t"
  "clicking (fst (click_once env t)) = clicking t"
  "delay_ms (fst (click_once env t)) = delay_ms t"
  "rand_ms (fst (click_once env t)) = rand_ms t"
  "synthing (fst (click_once env t)) = False"
  "snd (click_once env t) = (if down_raises env \<or> up_raises env then Some OSError else None)"
  by (simp_all add: click_once_def wrap_begin_def wrap_end_def Let_def split_beta)

lemma click_once_guard:
  "0 \<le> synth_guard (app_state t) \<Longrightarrow>
   synth_guard (app_state (fst (click_once env t))) = synth_guard (app_state t)"
  by (simp add: click_once_def wrap_begin_def wrap_end_def Let_def split_beta
      begin_synth_def end_synth_def)

text \<open>
  C4. \<^verbatim>\<open>begin_synth\<close> adds one to the depth; \<^verbatim>\<open>end_synth\<close> takes one off a positive depth
  and leaves any other depth alone, so it never takes a depth below zero; \<^verbatim>\<open>is_synth\<close> is
  true exactly when the depth is positive. Starting from a fresh \<^verbatim>\<open>State\<close>, after any
  sequence of begin and end calls the depth is not negative, and when every begin of the
  sequence is matched by a later end of its own the depth is back at zero and
  \<^verbatim>\<open>is_synth\<close> is false. \<^verbatim>\<open>click_once\<close>, which brackets a click between the two calls,
  gives the depth back as it found it and leaves its own flag down, also when a
  \<^verbatim>\<open>mouse_event\<close> call raises.
\<close>

theorem synth_guard_contract:
  "synth_guard (begin_synth s) = synth_guard s + 1
   \<and> synth_guard (end_synth s) = (if synth_guard s > 0 then synth_guard s - 1 else synth_guard s)
   \<and> (0 \<le> synth_guard s \<longrightarrow> 0 \<le> synth_guard (end_synth s))
   \<and> is_synth s = (synth_guard s > 0)
   \<and> 0 \<le> synth_guard (guard_run State_init cs)
   \<and> (every_begin_matched cs \<longrightarrow>
        synth_guard (guard_run State_init cs) = 0 \<and> \<not> is_synth (guard_run State_init cs))
   \<and> (0 \<le> synth_guard (app_state t) \<longrightarrow>
        synth_guard (app_state (fst (click_once env t))) = synth_guard (app_state t)
        \<and> \<not> synthing (fst (click_once env t)))"
proof -
  have a: "0 \<le> synth_guard (guard_run State_init cs)"
    by (rule guard_run_nonneg) (simp add: State_init_def)
  have b: "every_begin_matched cs \<longrightarrow> synth_guard (guard_run State_init cs) = 0"
  proof
    assume "every_begin_matched cs"
    then obtain n where "spare_ends cs = Some n"
      by (auto simp: every_begin_matched_def)
    from guard_run_matched [OF this, of State_init]
    show "synth_guard (guard_run State_init cs) = 0"
      by (simp add: State_init_def)
  qed
  show ?thesis
    using a b
    by (simp add: begin_synth_def end_synth_def is_synth_def click_once_guard click_once_frame)
qed

text \<open>C4, witness: a sequence with nested, repeated and stray calls, and a click whose
  second \<^verbatim>\<open>mouse_event\<close> raises.\<close>

theorem synth_guard_contract_witness:
  "every_begin_matched [Begin, Begin, End, End, End, Begin, End]
   \<and> synth_guard (guard_run State_init [Begin, Begin, End, End, End, Begin, End]) = 0
   \<and> \<not> is_synth (guard_run State_init [Begin, Begin, End, End, End, Begin, End])
   \<and> synth_guard (end_synth State_init) = 0
   \<and> synth_guard (app_state (fst (click_once ((click_env_at holding 1 0)\<lparr>up_raises := True\<rparr>)
        (AutoClickThread_init 20 20 State_init)))) = 0"
  using synth_guard_contract [of State_init "[Begin, Begin, End, End, End, Begin, End]"
      "AutoClickThread_init 20 20 State_init" "(click_env_at holding 1 0)\<lparr>up_raises := True\<rparr>"]
  by (simp add: every_begin_matched_def State_init_def AutoClickThread_init_def)

section \<open>Properties of the engine's methods\<close>

subsection \<open>Running a method to its end\<close>

lemma run_bind: "run (bind m f) s = (case run m s of (a, s') \<Rightarrow> run (f a) s')"
  by (induction m arbitrary: s) simp_all

lemma run_load: "run (load f) s = (f s, s)"
  by (simp add: load_def)

lemma run_store: "run (store u) s = ((), u s)"
  by (simp add: store_def)

lemma run_backend_call:
  "run (backend_call c) s =
     (\<not> faulty s (calls s) c, s\<lparr>calls := calls s @ [(c, \<not> faulty s (calls s) c)]\<rparr>)"
  by (simp add: backend_call_def)

lemma run_sleep: "run (sleep d) s = ((), s\<lparr>sleeps := sleeps s @ [d]\<rparr>)"
  by (simp add: sleep_def run_store)

lemmas run_simps = run_bind run_load run_store run_backend_call run_sleep

lemma run_unit: "run (m :: unit thr) e = ((), exec m e)"
  by (cases "run m e") (simp add: exec_def)

lemma run_ensure_trigger_down:
  "run ensure_trigger_down s =
     ((), if trigger_held s then s
          else if faulty s (calls s) (KeyDown (trigger_key s))
          then s\<lparr>calls := calls s @ [(KeyDown (trigger_key s), False)]\<rparr>
          else s\<lparr>calls := calls s @ [(KeyDown (trigger_key s), True)], trigger_held := True\<rparr>)"
  by (simp add: ensure_trigger_down_def run_simps)

lemma run_release_trigger:
  "run release_trigger s =
     ((), if trigger_held s
          then s\<lparr>calls := calls s @
                   [(KeyUp (trigger_key s), \<not> faulty s (calls s) (KeyUp (trigger_key s)))],
                 trigger_held := False\<rparr>
          else s)"
  by (simp add: release_trigger_def run_simps)

lemma exec_ensure_trigger_down:
  "exec ensure_trigger_down s =
     (if trigger_held s then s
      else if faulty s (calls s) (KeyDown (trigger_key s))
      then s\<lparr>calls := calls s @ [(KeyDown (trigger_key s), False)]\<rparr>
      else s\<lparr>calls := calls s @ [(KeyDown (trigger_key s), True)], trigger_held := True\<rparr>)"
  by (simp add: exec_def run_ensure_trigger_down)

lemma exec_release_trigger:
  "exec release_trigger s =
     (if trigger_held s
      then s\<lparr>calls := calls s @
               [(KeyUp (trigger_key s), \<not> faulty s (calls s) (KeyUp (trigger_key s)))],
             trigger_held := False\<rparr>
      else s)"
  by (simp add: exec_def run_release_trigger)

lemma ensure_calls:
  "calls (exec ensure_trigger_down e) =
     calls e @ (if trigger_held e then []
                else [(KeyDown (trigger_key e), \<not> faulty e (calls e) (KeyDown (trigger_key e)))])"
  by (simp add: exec_ensure_trigger_down)

lemma release_calls:
  "calls (exec release_trigger e) =
     calls e @ (if trigger_held e
                then [(KeyUp (trigger_key e), \<not> faulty e (calls e) (KeyUp (trigger_key e)))]
                else [])"
  by (simp add: exec_release_trigger)

lemma ensure_frame:
  "running (exec ensure_trigger_down e) = running e"
  "thread (exec ensure_trigger_down e) = thread e"
  "faulty (exec ensure_trigger_down e) = faulty e"
  "trigger_key (exec ensure_trigger_down e) = trigger_key e"
  by (simp_all add: exec_ensure_trigger_down)

lemma release_frame:
  "running (exec release_trigger e) = running e"
  "thread (exec release_trigger e) = thread e"
  "faulty (exec release_trigger e) = faulty e"
  "trigger_key (exec release_trigger e) = trigger_key e"
  "trigger_held (exec release_trigger e) = False"
  by (simp_all add: exec_release_trigger)

subsection \<open>Holding the trigger key\<close>

text \<open>
  C9. When \<^verbatim>\<open>key_down\<close> returns normally (the backend's contract), calling
  \<^verbatim>\<open>_ensure_trigger_down\<close> twice in a row, with nothing in between, leaves the engine as
  one call does: the held flag is true and at most one \<^verbatim>\<open>key_down\<close> has gone to the
  backend.
\<close>

theorem ensure_trigger_down_idempotent:
  assumes "\<not> faulty e (calls e) (KeyDown (trigger_key e))"
  shows "exec ensure_trigger_down (exec ensure_trigger_down e) = exec ensure_trigger_down e
    \<and> trigger_held (exec ensure_trigger_down (exec ensure_trigger_down e))
    \<and> length (filter is_key_down
         (new_calls e (exec ensure_trigger_down (exec ensure_trigger_down e)))) \<le> 1"
  using assms by (simp add: exec_ensure_trigger_down new_calls_def)

text \<open>C9, witness: a fresh engine on a backend that never raises; the one call is the
  \<^verbatim>\<open>key_down\<close> of \<^verbatim>\<open>'p'\<close>.\<close>

theorem ensure_trigger_down_idempotent_witness:
  "\<not> faulty (engine_init sound) (calls (engine_init sound)) (KeyDown (trigger_key (engine_init sound)))
   \<and> exec ensure_trigger_down (exec ensure_trigger_down (engine_init sound))
       = exec ensure_trigger_down (engine_init sound)
   \<and> trigger_held (exec ensure_trigger_down (exec ensure_trigger_down (engine_init sound)))
   \<and> new_calls (engine_init sound)
        (exec ensure_trigger_down (exec ensure_trigger_down (engine_init sound)))
      = [KeyDown ''p'']"
  using ensure_trigger_down_idempotent [of "engine_init sound"]
  by (simp add: engine_init_def sound_def exec_ensure_trigger_down new_calls_def)

subsection \<open>Rebinding the trigger key\<close>

lemma py_lower_idem: "py_lower (py_lower c) = py_lower c"
  by (auto simp add: py_lower_def Let_def)

lemma strip_single: "strip [c] = (if is_space c then [] else [c])"
  by (simp add: strip_def)

lemma normalise_key_eq:
  "normalise_key key =
     Inr (case key of None \<Rightarrow> ''p'' | Some [] \<Rightarrow> ''p''
          | Some (c # cs) \<Rightarrow> if is_space c then ''p'' else [py_lower c])"
  by (simp add: normalise_key_def strip_single py_lower_def Let_def
      split: option.split list.split)

lemma strip_Nil_iff: "strip s = [] \<longleftrightarrow> list_all is_space s"
proof -
  have h: "(\<forall>x\<in>set (dropWhile is_space s). is_space x) \<longleftrightarrow> (\<forall>x\<in>set s. is_space x)"
  proof
    assume a: "\<forall>x\<in>set (dropWhile is_space s). is_space x"
    have "dropWhile is_space s = []"
    proof (rule ccontr)
      assume n: "dropWhile is_space s \<noteq> []"
      then have "\<not> is_space (hd (dropWhile is_space s))"
        by (rule hd_dropWhile)
      moreover have "hd (dropWhile is_space s) \<in> set (dropWhile is_space s)"
        using n by simp
      ultimately show False using a by blast
    qed
    then show "\<forall>x\<in>set s. is_space x"
      by (simp add: dropWhile_eq_Nil_conv)
  next
    assume "\<forall>x\<in>set s. is_space x"
    then show "\<forall>x\<in>set (dropWhile is_space s). is_space x"
      by (auto dest: set_dropWhileD)
  qed
  show ?thesis
    by (simp add: strip_def h list_all_iff)
qed

lemma set_trigger_key_result:
  "trigger_key (exec (set_trigger_key key) e) = projr (normalise_key key)"
  by (simp add: exec_def set_trigger_key_def normalise_key_eq run_simps
      run_ensure_trigger_down run_release_trigger split: option.split list.split)

lemma exec_set_trigger_key:
  "normalise_key key = Inr k \<Longrightarrow>
   exec (set_trigger_key key) e =
     (if k = trigger_key e then e
      else if trigger_held e
      then exec ensure_trigger_down ((exec release_trigger e)\<lparr>trigger_key := k\<rparr>)
      else e\<lparr>trigger_key := k\<rparr>)"
  by (simp add: set_trigger_key_def exec_def run_simps run_ensure_trigger_down
      run_release_trigger)

text \<open>
  Let \<^verbatim>\<open>set_trigger_key\<close> be called, with no other thread in between, for a key that
  differs from the current one. If the trigger is held and the backend's \<^verbatim>\<open>key_down\<close> of
  the new key returns normally, the backend receives exactly \<^verbatim>\<open>key_up(old)\<close> and then
  \<^verbatim>\<open>key_down(new)\<close>: after the first no key is down, after the second only the new one, so
  the two are never down together; afterwards the new key is the trigger key and it is
  held. If the trigger is not held, the backend receives nothing and the key is switched.
\<close>

lemma set_trigger_key_rebind:
  assumes "normalise_key key = Inr k" and "k \<noteq> trigger_key e"
  shows "(trigger_held e \<and> (\<forall>cs. \<not> faulty e cs (KeyDown k)) \<longrightarrow>
            new_calls e (exec (set_trigger_key key) e) = [KeyUp (trigger_key e), KeyDown k]
          \<and> foldl press {trigger_key e}
               (take 1 (drop (length (calls e)) (calls (exec (set_trigger_key key) e)))) = {}
          \<and> foldl press {trigger_key e}
               (take 2 (drop (length (calls e)) (calls (exec (set_trigger_key key) e)))) = {k}
          \<and> trigger_key (exec (set_trigger_key key) e) = k
          \<and> trigger_held (exec (set_trigger_key key) e))
       \<and> (\<not> trigger_held e \<longrightarrow>
            new_calls e (exec (set_trigger_key key) e) = []
          \<and> trigger_key (exec (set_trigger_key key) e) = k
          \<and> \<not> trigger_held (exec (set_trigger_key key) e))"
  using assms
  by (simp add: exec_set_trigger_key exec_ensure_trigger_down exec_release_trigger new_calls_def)

text \<open>For instance: the engine holds \<^verbatim>\<open>'p'\<close> and is told to use \<^verbatim>\<open>'Q'\<close>; a fresh engine,
  holding nothing, is told the same.\<close>

lemma set_trigger_key_rebind_sample:
  "normalise_key (Some ''Q'') = Inr ''q''
   \<and> trigger_held (exec ensure_trigger_down (engine_init sound))
   \<and> new_calls (exec ensure_trigger_down (engine_init sound))
        (exec (set_trigger_key (Some ''Q'')) (exec ensure_trigger_down (engine_init sound)))
       = [KeyUp ''p'', KeyDown ''q'']
   \<and> trigger_held (exec (set_trigger_key (Some ''Q'')) (exec ensure_trigger_down (engine_init sound)))
   \<and> new_calls (engine_init sound) (exec (set_trigger_key (Some ''Q'')) (engine_init sound)) = []
   \<and> trigger_key (exec (set_trigger_key (Some ''Q'')) (engine_init sound)) = ''q''"
  using set_trigger_key_rebind [of "Some ''Q''" "''q''" "exec ensure_trigger_down (engine_init sound)"]
    set_trigger_key_rebind [of "Some ''Q''" "''q''" "engine_init sound"]
  by (simp add: normalise_key_eq is_space_def py_lower_def char_of_eq_iff
      exec_ensure_trigger_down engine_init_def sound_def)

text \<open>
  C10 (amended). After \<^verbatim>\<open>set_trigger_key\<close>, run with no other thread in between, the
  trigger key is a single character that \<^verbatim>\<open>lower()\<close> leaves as it is: \<^verbatim>\<open>'p'\<close> when the
  argument is \<^verbatim>\<open>None\<close>, empty, or begins with a whitespace character (so in particular
  when it is all whitespace), and otherwise the argument's first character, lowercased.
\<close>

theorem set_trigger_key_normalises:
  "trigger_key (exec (set_trigger_key key) e) =
     (case key of None \<Rightarrow> ''p'' | Some [] \<Rightarrow> ''p''
      | Some (c # cs) \<Rightarrow> if is_space c then ''p'' else [py_lower c])
   \<and> length (trigger_key (exec (set_trigger_key key) e)) = 1
   \<and> map py_lower (trigger_key (exec (set_trigger_key key) e))
       = trigger_key (exec (set_trigger_key key) e)
   \<and> (key = None \<or> (\<exists>s. key = Some s \<and> strip s = []) \<longrightarrow>
        trigger_key (exec (set_trigger_key key) e) = ''p'')"
proof -
  let ?k = "case key of None \<Rightarrow> ''p'' | Some [] \<Rightarrow> ''p''
      | Some (c # cs) \<Rightarrow> if is_space c then ''p'' else [py_lower c]"
  have k: "trigger_key (exec (set_trigger_key key) e) = ?k"
    by (simp add: set_trigger_key_result normalise_key_eq)
  have p: "py_lower CHR ''p'' = CHR ''p''"
    by (simp add: py_lower_def)
  have l: "length ?k = 1"
    by (simp split: option.split list.split)
  have m: "map py_lower ?k = ?k"
    by (simp add: p py_lower_idem split: option.split list.split)
  have w: "key = None \<or> (\<exists>s. key = Some s \<and> strip s = []) \<longrightarrow> ?k = ''p''"
    by (auto simp add: strip_Nil_iff split: list.split)
  show ?thesis unfolding k using l m w by blast
qed

text \<open>C10 (amended), witness: an upper-case letter followed by more text, and an argument
  made of a blank and a tab.\<close>

theorem set_trigger_key_normalises_witness:
  "trigger_key (exec (set_trigger_key (Some ''Q7'')) (engine_init sound)) = ''q''
   \<and> strip [CHR 0x20, CHR 0x09] = []
   \<and> trigger_key (exec (set_trigger_key (Some [CHR 0x20, CHR 0x09])) (engine_init sound)) = ''p''"
  using set_trigger_key_normalises [of "Some ''Q7''" "engine_init sound"]
    set_trigger_key_normalises [of "Some [CHR 0x20, CHR 0x09]" "engine_init sound"]
  by (simp add: is_space_def py_lower_def strip_def char_of_eq_iff)

text \<open>
  C10, counterexample: the argument \<^verbatim>\<open>" a"\<close> is not all whitespace, and its first
  character lowercased is the blank; yet the engine, whose key was \<^verbatim>\<open>'q'\<close>, ends up
  with \<^verbatim>\<open>'p'\<close>.
\<close>

theorem set_trigger_key_leading_space:
  "trigger_key (exec (set_trigger_key (Some ''q'')) (engine_init sound)) = ''q''
   \<and> trigger_key (exec (set_trigger_key (Some '' a''))
        (exec (set_trigger_key (Some ''q'')) (engine_init sound))) = ''p''
   \<and> map py_lower (take 1 '' a'') = '' ''
   \<and> strip '' a'' \<noteq> []"
  by (simp add: set_trigger_key_result normalise_key_eq is_space_def py_lower_def strip_def
      char_of_eq_iff)

section \<open>Properties of a loop iteration\<close>

subsection \<open>The built-in curve\<close>

text \<open>
  C2. With no custom function, the pull computed for a tick is
  \<^verbatim>\<open>defaultPull + count / acceleration\<close> while \<^verbatim>\<open>elapsed < initialDuration\<close> (the divisor
  being a number one can divide by), and \<^verbatim>\<open>steadyPull\<close> from \<^verbatim>\<open>initialDuration\<close> on. For
  the profile of scenario A this gives 2.1 at 0.1 s and tick 20, and 1.6 at 0.6 s. For a
  positive \<^verbatim>\<open>acceleration\<close> the ramp never decreases as the tick count grows.
\<close>

theorem default_pull_curve:
  "(elapsed < initialDuration cfg \<and> acceleration cfg \<noteq> 0 \<longrightarrow>
      compute_pull None cfg elapsed n = defaultPull cfg + of_int n / acceleration cfg)
   \<and> (initialDuration cfg \<le> elapsed \<longrightarrow> compute_pull None cfg elapsed n = steadyPull cfg)
   \<and> compute_pull None \<lparr>name = nm, defaultPull = 2.0, initialDuration = 0.5, steadyPull = 1.6,
        sleepTime = 8, acceleration = 200.0\<rparr> 0.1 20 = 2.1
   \<and> compute_pull None \<lparr>name = nm, defaultPull = 2.0, initialDuration = 0.5, steadyPull = 1.6,
        sleepTime = 8, acceleration = 200.0\<rparr> 0.6 n = 1.6
   \<and> (0 < acceleration cfg \<and> elapsed < initialDuration cfg \<and> m \<le> n \<longrightarrow>
        compute_pull None cfg elapsed m \<le> compute_pull None cfg elapsed n)"
  by (simp add: compute_pull_def default_pull_def divide_right_mono)

text \<open>C2, witness: the default profile a quarter of a second into the ramp, at ticks 50
  and 51, and at the moment the ramp ends.\<close>

theorem default_pull_curve_witness:
  "(0.25 :: real) < initialDuration (WeaponConfig_defaults ''Default'')
   \<and> 0 < acceleration (WeaponConfig_defaults ''Default'')
   \<and> compute_pull None (WeaponConfig_defaults ''Default'') 0.25 50 = 2.25
   \<and> compute_pull None (WeaponConfig_defaults ''Default'') 0.5 51 = 1.6
   \<and> compute_pull None (WeaponConfig_defaults ''Default'') 0.25 50
        \<le> compute_pull None (WeaponConfig_defaults ''Default'') 0.25 51"
  using default_pull_curve [of "0.25" "WeaponConfig_defaults ''Default''" 51 nm 50]
    default_pull_curve [of "0.25" "WeaponConfig_defaults ''Default''" 50 nm 50]
    default_pull_curve [of "0.5" "WeaponConfig_defaults ''Default''" 51 nm 50]
  by (simp add: WeaponConfig_defaults_def)

subsection \<open>An iteration in which the firing condition holds\<close>

lemma run_loop_body_fires:
  assumes pv: "poll_values (polled env) = (st, cfg, calc)"
    and f: "dict_get st ''fire_enabled'' True" "dict_get st ''right_hold'' False"
      "dict_get st ''left_hold'' False"
  shows "run (loop_body env l) e =
     (l\<lparr>shooting := True, count := tick_count env l,
         start_time := (if shooting l then start_time l else clock_start env)\<rparr>,
      (let pke = dict_get st ''press_key_enabled'' True;
           e1 = (if \<not> pke \<and> trigger_held e then exec release_trigger e else e);
           e2 = (if \<not> shooting l \<and> pke then exec ensure_trigger_down e1 else e1);
           e3 = (if pke then exec ensure_trigger_down e2 else exec release_trigger e2);
           e4 = snd (run (backend_call (MoveMouse 0 (py_int (tick_pull env l)))) e3)
       in e4\<lparr>sleeps := sleeps e4 @ [max 0.001 (of_int (sleepTime cfg) / 1000)]\<rparr>))"
  using f
  by (simp add: loop_body_def pv tick_pull_def tick_count_def tick_elapsed_def
      run_bind run_load run_sleep run_unit [of ensure_trigger_down]
      run_unit [of release_trigger] Let_def split_beta)

lemma fires_tick:
  assumes "fires env"
  shows "fst (run (loop_body env l) e) =
           l\<lparr>shooting := True, count := tick_count env l,
             start_time := (if shooting l then start_time l else clock_start env)\<rparr>"
    and "filter is_move (new_calls e (snd (run (loop_body env l) e)))
           = [MoveMouse 0 (py_int (tick_pull env l))]"
    and "running (snd (run (loop_body env l) e)) = running e"
    and "thread (snd (run (loop_body env l) e)) = thread e"
proof -
  obtain st cfg calc where pv: "poll_values (polled env) = (st, cfg, calc)"
    by (cases "poll_values (polled env)") auto
  with assms have f: "dict_get st ''fire_enabled'' True" "dict_get st ''right_hold'' False"
      "dict_get st ''left_hold'' False"
    by (simp_all add: fires_def)
  note cf = run_loop_body_fires [OF pv f]
  show "fst (run (loop_body env l) e) =
           l\<lparr>shooting := True, count := tick_count env l,
             start_time := (if shooting l then start_time l else clock_start env)\<rparr>"
    by (simp add: cf)
  show "filter is_move (new_calls e (snd (run (loop_body env l) e)))
           = [MoveMouse 0 (py_int (tick_pull env l))]"
    by (simp add: cf new_calls_def run_backend_call ensure_calls release_calls Let_def)
  show "running (snd (run (loop_body env l) e)) = running e"
    by (simp add: cf run_backend_call ensure_frame release_frame Let_def)
  show "thread (snd (run (loop_body env l) e)) = thread e"
    by (simp add: cf run_backend_call ensure_frame release_frame Let_def)
qed

lemmas eval_simps =
  occur_all_def system_init_def engine_init_def locals_init_def exec_def start_def
  run_bind run_load run_store run_backend_call run_sleep run_ensure_trigger_down
  run_release_trigger loop_body_def dict_get_def compute_pull_def default_pull_def
  WeaponConfig_defaults_def py_int_def Let_def split_beta firing_def firing_tick_def
  failing_tick_def failing_calc_def sound_def

text \<open>
  C3 (amended). In every iteration in which the firing condition holds, the engine makes
  exactly one \<^verbatim>\<open>move_mouse\<close> call: horizontal offset 0, vertical offset \<^verbatim>\<open>int(pull)\<close>,
  the tick's pull cut off towards zero.
\<close>

theorem shooting_tick_move:
  assumes "fires env"
  shows "filter is_move (new_calls e (snd (run (loop_body env l) e)))
           = [MoveMouse 0 (py_int (tick_pull env l))]"
  using assms by (rule fires_tick(2))

text \<open>C3 (amended), witness: the first firing iteration of a started engine, default
  profile; the pull is 2.005, the offset 2.\<close>

theorem shooting_tick_move_witness:
  "fires (firing_tick 10)
   \<and> tick_pull (firing_tick 10) locals_init = 2.005
   \<and> filter is_move (new_calls (exec start (engine_init sound))
        (snd (run (loop_body (firing_tick 10) locals_init) (exec start (engine_init sound)))))
       = [MoveMouse 0 2]"
  using shooting_tick_move [of "firing_tick 10" "exec start (engine_init sound)" locals_init]
  by (simp add: fires_def tick_pull_def tick_count_def tick_elapsed_def eval_simps)

text \<open>
  C3, counterexample: a started engine, default profile, two firing iterations, the
  second 0.6 s after the first. The second tick's pull is 1.6, whose nearest integer is
  2; the backend is asked to move by 1.
\<close>

theorem shooting_tick_not_rounded:
  "loc (occur_all (system_init sound) [Call Start, Tick (firing_tick 10)])
       = \<lparr>count = 1, shooting = True, start_time = 10\<rparr>
   \<and> tick_pull (firing_tick 10.6) \<lparr>count = 1, shooting = True, start_time = 10\<rparr> = 1.6
   \<and> map fst (calls (eng (occur_all (system_init sound)
         [Call Start, Tick (firing_tick 10), Tick (firing_tick 10.6)])))
       = [KeyDown ''p'', MoveMouse 0 2, MoveMouse 0 1]
   \<and> py_round 1.6 = 2 \<and> round (1.6 :: real) = 2"
  by (simp add: eval_simps tick_pull_def tick_count_def tick_elapsed_def py_round_def round_def)

text \<open>
  C6. In an iteration in which the firing condition holds and a custom function is
  supplied, if the function raises then the tick's pull is the profile's \<^verbatim>\<open>steadyPull\<close>,
  the one \<^verbatim>\<open>move_mouse\<close> call of the tick is made with it, and the iteration ends as any
  other: the tick is counted, the loop is still shooting, and neither \<^verbatim>\<open>_running\<close> nor
  the thread has changed, so the loop goes on to its next test.
\<close>

theorem calc_failure_fallback:
  assumes "poll_values (polled env) = (st, cfg, Some f)"
    and "fires env"
    and "f (tick_elapsed env l) (tick_count env l) = Inl err"
  shows "tick_pull env l = steadyPull cfg
    \<and> filter is_move (new_calls e (snd (run (loop_body env l) e)))
         = [MoveMouse 0 (py_int (steadyPull cfg))]
    \<and> shooting (fst (run (loop_body env l) e))
    \<and> count (fst (run (loop_body env l) e)) = tick_count env l
    \<and> running (snd (run (loop_body env l) e)) = running e
    \<and> thread (snd (run (loop_body env l) e)) = thread e"
proof -
  have p: "tick_pull env l = steadyPull cfg"
    using assms(1,3) by (simp add: tick_pull_def compute_pull_def)
  show ?thesis
    using fires_tick [OF assms(2), where l = l and e = e] p by simp
qed

text \<open>C6, witness: a custom function that always raises, default profile; the offset is
  \<^verbatim>\<open>int(1.6)\<close>, and the next iteration moves the mouse again.\<close>

theorem calc_failure_fallback_witness:
  "poll_values (polled (failing_tick 10))
     = (firing, WeaponConfig_defaults ''Default'', Some failing_calc)
   \<and> fires (failing_tick 10)
   \<and> failing_calc (tick_elapsed (failing_tick 10) locals_init)
        (tick_count (failing_tick 10) locals_init) = Inl CalcError
   \<and> filter is_move (new_calls (exec start (engine_init sound))
        (snd (run (loop_body (failing_tick 10) locals_init) (exec start (engine_init sound)))))
       = [MoveMouse 0 1]
   \<and> running (snd (run (loop_body (failing_tick 10) locals_init) (exec start (engine_init sound))))
   \<and> map fst (calls (eng (occur_all (system_init sound)
         [Call Start, Tick (failing_tick 10), Tick (failing_tick 11)])))
       = [KeyDown ''p'', MoveMouse 0 1, MoveMouse 0 1]"
proof -
  have a: "poll_values (polled (failing_tick 10))
      = (firing, WeaponConfig_defaults ''Default'', Some failing_calc)"
    by (simp add: failing_tick_def)
  have b: "fires (failing_tick 10)"
    by (simp add: fires_def failing_tick_def firing_def dict_get_def)
  have c: "failing_calc (tick_elapsed (failing_tick 10) locals_init)
        (tick_count (failing_tick 10) locals_init) = Inl CalcError"
    by (simp add: failing_calc_def)
  have d: "steadyPull (WeaponConfig_defaults ''Default'') = 1.6"
    by (simp add: WeaponConfig_defaults_def)
  have r: "running (exec start (engine_init sound))"
    by (simp add: eval_simps)
  have o: "map fst (calls (eng (occur_all (system_init sound)
         [Call Start, Tick (failing_tick 10), Tick (failing_tick 11)])))
       = [KeyDown ''p'', MoveMouse 0 1, MoveMouse 0 1]"
    by (simp add: eval_simps)
  show ?thesis
    using calc_failure_fallback [OF a b c, of "exec start (engine_init sound)"] a b c d r o
    by (simp add: py_int_def)
qed

section \<open>Properties of the auto-click loop\<close>

lemmas click_simps =
  run_tick_def click_once_def click_delay_def randint_def update_hold_shadow_def wrap_begin_def
  wrap_end_def begin_synth_def end_synth_def dict_get_def AutoClickThread_init_def State_init_def
  holding_def pressing_def idle_def click_env_at_def Let_def split_beta

text \<open>An iteration changes the latch only at lines 364-367, and sets the clicking flag to
  the condition of line 371.\<close>

lemma run_tick_latch:
  "hold_shadow (fst (run_tick env t)) =
     hold_shadow (update_hold_shadow (dict_get (state_dict env) ''left_hold'' False)
        (physical_pressed env) (perf_now env) t)"
proof -
  let ?u = "update_hold_shadow (dict_get (state_dict env) ''left_hold'' False)
        (physical_pressed env) (perf_now env) t"
  obtain t2 r where co: "click_once env (?u\<lparr>clicking := True\<rparr>) = (t2, r)"
    by (cases "click_once env (?u\<lparr>clicking := True\<rparr>)") auto
  have "hold_shadow t2 = hold_shadow ?u"
    using click_once_frame(1) [of env "?u\<lparr>clicking := True\<rparr>"] co by simp
  then show ?thesis
    using co by (auto simp add: run_tick_def Let_def split: option.splits sum.splits)
qed

lemma run_tick_clicking:
  "clicking (fst (run_tick env t)) =
     (dict_get (state_dict env) ''auto_click_enabled'' False
      \<and> (physical_pressed env \<or> hold_shadow (fst (run_tick env t))))"
proof -
  let ?u = "update_hold_shadow (dict_get (state_dict env) ''left_hold'' False)
        (physical_pressed env) (perf_now env) t"
  obtain t2 r where co: "click_once env (?u\<lparr>clicking := True\<rparr>) = (t2, r)"
    by (cases "click_once env (?u\<lparr>clicking := True\<rparr>)") auto
  have "clicking t2"
    using click_once_frame(2) [of env "?u\<lparr>clicking := True\<rparr>"] co by simp
  then show ?thesis
    unfolding run_tick_latch
    using co by (auto simp add: run_tick_def Let_def split: option.splits sum.splits)
qed

text \<open>
  C5 (amended). In every iteration of \<^verbatim>\<open>run\<close> the shadow-hold latch becomes true when
  the state's \<^verbatim>\<open>left_hold\<close> is true; otherwise it becomes false when the hardware reports
  the button up, no synthesis is in progress and more than 30 ms have passed since the
  last synthesised click was stamped; otherwise it keeps its value. The thread clicks in
  that iteration exactly when auto-click is enabled and the hardware reading or the
  latch, as just updated, says the button is held.
\<close>

theorem shadow_hold_latch:
  "hold_shadow (fst (run_tick env t)) =
     (if dict_get (state_dict env) ''left_hold'' False then True
      else if \<not> physical_pressed env \<and> \<not> synthing t \<and> perf_now env - last_synth_ts t > 0.03
      then False
      else hold_shadow t)
   \<and> clicking (fst (run_tick env t)) =
       (dict_get (state_dict env) ''auto_click_enabled'' False
        \<and> (physical_pressed env \<or> hold_shadow (fst (run_tick env t))))"
  using run_tick_clicking [of env t]
  by (simp add: run_tick_latch update_hold_shadow_def)

text \<open>C5 (amended), witness: a new thread sees the button held at 1 s and clicks; at 2 s
  the button is up and the latch falls.\<close>

theorem shadow_hold_latch_witness:
  "hold_shadow (fst (run_tick (click_env_at holding 1 0) (AutoClickThread_init 20 20 State_init)))
   \<and> clicking (fst (run_tick (click_env_at holding 1 0) (AutoClickThread_init 20 20 State_init)))
   \<and> \<not> hold_shadow (fst (run_tick (click_env_at idle 2 0)
          (fst (run_tick (click_env_at holding 1 0) (AutoClickThread_init 20 20 State_init)))))"
  using shadow_hold_latch [of "click_env_at holding 1 0" "AutoClickThread_init 20 20 State_init"]
    shadow_hold_latch [of "click_env_at idle 2 0"
      "fst (run_tick (click_env_at holding 1 0) (AutoClickThread_init 20 20 State_init))"]
  by (simp add: click_simps)

text \<open>
  C5, counterexample: a new thread (last stamp 0) sees the button held, with auto-click
  off, and latches. In the next iteration the clock reads 0.03: the state says not held,
  the hardware says not held, no synthesis is in progress and 30 ms have passed since
  the stamp, yet the latch stays up.
\<close>

theorem shadow_hold_kept_at_30ms:
  "hold_shadow (fst (run_tick (click_env_at idle (3 / 100) 0)
      (fst (run_tick (click_env_at pressing 0 0) (AutoClickThread_init 20 20 State_init)))))
   \<and> \<not> dict_get (state_dict (click_env_at idle (3 / 100) 0)) ''left_hold'' False
   \<and> \<not> physical_pressed (click_env_at idle (3 / 100) 0)
   \<and> \<not> synthing (fst (run_tick (click_env_at pressing 0 0) (AutoClickThread_init 20 20 State_init)))
   \<and> perf_now (click_env_at idle (3 / 100) 0)
        - last_synth_ts (fst (run_tick (click_env_at pressing 0 0)
            (AutoClickThread_init 20 20 State_init))) \<ge> 0.03"
  by (simp add: click_simps)



section \<open>The trigger key after \<^verbatim>\<open>stop\<close>\<close>

subsection \<open>Calls and iterations taken one at a time\<close>

lemma keys_down_append: "keys_down (cs @ xs) = foldl press (keys_down cs) xs"
  by (simp add: keys_down_def)

lemma keys_down_snoc: "keys_down (cs @ [x]) = press (keys_down cs) x"
  by (simp add: keys_down_def)

lemma keeps_Ret: "keeps P (Ret a)"
  by (simp add: keeps_def)

lemma keeps_bind: "keeps P m \<Longrightarrow> (\<And>a. keeps P (f a)) \<Longrightarrow> keeps P (bind m f)"
  by (auto simp add: keeps_def run_bind split_beta)

lemma keeps_if: "keeps P m \<Longrightarrow> keeps P m' \<Longrightarrow> keeps P (if c then m else m')"
  by simp

lemma keeps_load: "keeps P (load f)"
  by (simp add: keeps_def run_load)

lemma keeps_exec: "keeps P m \<Longrightarrow> P s \<Longrightarrow> P (exec m s)"
  by (simp add: keeps_def exec_def)

lemma balanced_ensure: "keeps balanced ensure_trigger_down"
  by (simp add: keeps_def balanced_def run_ensure_trigger_down keys_down_snoc)

lemma balanced_release: "keeps balanced release_trigger"
  by (simp add: keeps_def balanced_def run_release_trigger keys_down_snoc)

lemma balanced_move: "keeps balanced (backend_call (MoveMouse dx dy))"
  by (simp add: keeps_def balanced_def run_backend_call keys_down_snoc)

lemma balanced_sleep: "keeps balanced (sleep d)"
  by (simp add: keeps_def balanced_def run_sleep)

lemmas balanced_intros =
  keeps_Ret keeps_bind keeps_if keeps_load balanced_ensure balanced_release balanced_move
  balanced_sleep

lemma balanced_loop_body: "keeps balanced (loop_body env l)"
  unfolding loop_body_def Let_def split_beta
  by (intro balanced_intros)

lemma balanced_loop_exit: "keeps balanced loop_exit"
proof -
  have "keeps balanced (store (\<lambda>s. s\<lparr>thread := Finished\<rparr>))"
    by (simp add: keeps_def balanced_def run_store)
  then show ?thesis
    unfolding loop_exit_def by (intro balanced_intros)
qed

lemma balanced_start: "keeps balanced start"
  by (simp add: keeps_def balanced_def start_def run_simps)

lemma balanced_stop_head: "keeps balanced stop_head"
proof -
  have "keeps balanced (store (\<lambda>s. s\<lparr>running := False\<rparr>))"
    by (simp add: keeps_def balanced_def run_store)
  then show ?thesis
    unfolding stop_head_def by (intro balanced_intros)
qed

lemma balanced_set_trigger_key: "keeps balanced (set_trigger_key key)"
proof -
  obtain k where k: "normalise_key key = Inr k"
    by (simp add: normalise_key_eq)
  show ?thesis
    unfolding keeps_def
  proof (intro allI impI)
    fix s assume b: "balanced s"
    have "balanced (exec (set_trigger_key key) s)"
      using b
      by (auto simp add: exec_set_trigger_key [OF k] exec_ensure_trigger_down
          exec_release_trigger balanced_def keys_down_append)
    then show "balanced (snd (run (set_trigger_key key) s))"
      by (simp add: exec_def)
  qed
qed

lemma balanced_join: "balanced e \<Longrightarrow> balanced (join e)"
  by (simp add: join_def keeps_exec [OF balanced_loop_exit])

lemma balanced_occur: "balanced (eng s) \<Longrightarrow> balanced (eng (occur s ev))"
proof (cases ev)
  case (Call a)
  assume b: "balanced (eng s)"
  show ?thesis
  proof (cases a)
    case Start
    with Call b show ?thesis by (simp add: keeps_exec [OF balanced_start])
  next
    case Stop
    with Call b show ?thesis
      by (simp add: balanced_join keeps_exec [OF balanced_stop_head])
  next
    case (SetTriggerKey key)
    with Call b show ?thesis by (simp add: keeps_exec [OF balanced_set_trigger_key])
  next
    case ReleaseTrigger
    with Call b show ?thesis by (simp add: keeps_exec [OF balanced_release])
  qed
next
  case (Tick env)
  assume b: "balanced (eng s)"
  have "balanced (snd (run (loop_body env (loc s)) (eng s)))"
    using balanced_loop_body [of env "loc s"] b by (simp add: keeps_def)
  with Tick b show ?thesis
    by (simp add: split_beta keeps_exec [OF balanced_loop_exit])
qed

lemma balanced_occur_all: "balanced (eng s) \<Longrightarrow> balanced (eng (occur_all s evs))"
  unfolding occur_all_def
  by (induction evs arbitrary: s) (simp_all add: balanced_occur)

lemma stop_releases:
  "\<not> trigger_held (eng (occur s (Call Stop)))"
  "thread (eng (occur s (Call Stop))) \<noteq> Alive"
  "\<not> running (eng (occur s (Call Stop)))"
  by (simp_all add: join_def stop_head_def loop_exit_def exec_def run_simps
      run_release_trigger)

text \<open>
  Take any sequence of \<^verbatim>\<open>start\<close>, \<^verbatim>\<open>stop\<close>, \<^verbatim>\<open>set_trigger_key\<close> and
  \<^verbatim>\<open>release_trigger\<close> calls and of loop iterations, each iteration polling whatever
  state and profile it is given, on a backend that may raise at any call, where every
  call and every iteration is finished before the next one begins and \<^verbatim>\<open>join\<close> waits
  for the loop thread to end. When a \<^verbatim>\<open>stop\<close> at the end of the sequence has returned,
  the held flag is false, every \<^verbatim>\<open>key_down\<close> that returned has been followed by a
  \<^verbatim>\<open>key_up\<close> of the same key, and the loop thread is not alive.
\<close>

lemma stop_leaves_no_key_down:
  "\<not> trigger_held (eng (occur_all (system_init F) (evs @ [Call Stop])))
   \<and> keys_down (calls (eng (occur_all (system_init F) (evs @ [Call Stop])))) = {}
   \<and> thread (eng (occur_all (system_init F) (evs @ [Call Stop]))) \<noteq> Alive"
proof -
  let ?s = "occur_all (system_init F) evs"
  have e: "occur_all (system_init F) (evs @ [Call Stop]) = occur ?s (Call Stop)"
    by (simp add: occur_all_def)
  have "balanced (eng (system_init F))"
    by (simp add: balanced_def system_init_def engine_init_def keys_down_def)
  then have "balanced (eng ?s)"
    by (rule balanced_occur_all)
  then have b: "balanced (eng (occur ?s (Call Stop)))"
    by (rule balanced_occur)
  have h: "\<not> trigger_held (eng (occur ?s (Call Stop)))"
    by (rule stop_releases(1))
  have t: "thread (eng (occur ?s (Call Stop))) \<noteq> Alive"
    by (rule stop_releases(2))
  from b h have "keys_down (calls (eng (occur ?s (Call Stop)))) = {}"
    by (simp add: balanced_def)
  with h t show ?thesis
    unfolding e by simp
qed

text \<open>For instance: the engine is started, fires once, is told to use \<^verbatim>\<open>'q'\<close> while
  it holds \<^verbatim>\<open>'p'\<close>, and is stopped.\<close>

lemma stop_leaves_no_key_down_sample:
  "map fst (calls (eng (occur_all (system_init sound)
      ([Call Start, Tick (firing_tick 10), Call (SetTriggerKey (Some ''q''))] @ [Call Stop]))))
     = [KeyDown ''p'', MoveMouse 0 2, KeyUp ''p'', KeyDown ''q'', KeyUp ''q'']
   \<and> keys_down (calls (eng (occur_all (system_init sound)
      ([Call Start, Tick (firing_tick 10), Call (SetTriggerKey (Some ''q''))] @ [Call Stop])))) = {}
   \<and> \<not> trigger_held (eng (occur_all (system_init sound)
      ([Call Start, Tick (firing_tick 10), Call (SetTriggerKey (Some ''q''))] @ [Call Stop])))"
proof -
  have "map fst (calls (eng (occur_all (system_init sound)
      ([Call Start, Tick (firing_tick 10), Call (SetTriggerKey (Some ''q''))] @ [Call Stop]))))
     = [KeyDown ''p'', MoveMouse 0 2, KeyUp ''p'', KeyDown ''q'', KeyUp ''q'']"
    by (simp add: eval_simps join_def stop_head_def loop_exit_def set_trigger_key_def
        normalise_key_eq is_space_def py_lower_def)
  then show ?thesis
    using stop_leaves_no_key_down [of sound
        "[Call Start, Tick (firing_tick 10), Call (SetTriggerKey (Some ''q''))]"]
    by simp
qed

subsection \<open>The two threads interleaved\<close>

lemmas step_simps =
  schedule_def config_init_def engine_init_def locals_init_def sound_def exec_def
  start_def stop_head_def loop_exit_def set_trigger_key_def normalise_key_eq
  ensure_trigger_down_def release_trigger_def load_def store_def backend_call_def sleep_def
  loop_body_def dict_get_def compute_pull_def default_pull_def WeaponConfig_defaults_def
  py_int_def is_space_def py_lower_def firing_def firing_tick_def Let_def split_beta

text \<open>
  When \<^verbatim>\<open>stop\<close> arrives in the middle of an iteration, the loop thread's own release at
  line 287 makes up for the \<^verbatim>\<open>key_down\<close> that \<^verbatim>\<open>stop\<close> came too early to see: in the
  schedule \<open>stop_mid_tick\<close> the backend receives \<^verbatim>\<open>key_down('p')\<close>, a move and
  \<^verbatim>\<open>key_up('p')\<close>, and no key is down when \<^verbatim>\<open>stop\<close> has returned.
\<close>

lemma stop_mid_tick_releases:
  "ui (schedule (config_init sound) stop_mid_tick) = Ready
   \<and> lp (schedule (config_init sound) stop_mid_tick) = Absent
   \<and> \<not> trigger_held (shared (schedule (config_init sound) stop_mid_tick))
   \<and> map fst (calls (shared (schedule (config_init sound) stop_mid_tick)))
       = [KeyDown ''p'', MoveMouse 0 2, KeyUp ''p'']
   \<and> keys_down (calls (shared (schedule (config_init sound) stop_mid_tick))) = {}"
  by (simp add: stop_mid_tick_def step_simps keys_down_def)

text \<open>
  C7. The code where it breaks the claim: a backend that never raises, and the schedule
  \<open>rebind_race\<close>. When \<^verbatim>\<open>set_trigger_key('q')\<close> is called the engine holds \<^verbatim>\<open>'p'\<close>, and
  the backend has seen \<^verbatim>\<open>key_down('p')\<close> and a move. The loop thread's next iteration
  runs between lines 152 and 153 of the call: its \<^verbatim>\<open>_ensure_trigger_down\<close> finds the flag
  cleared and the key still \<^verbatim>\<open>'p'\<close>. When the call has returned, the backend has
  received \<^verbatim>\<open>key_up('p')\<close>, \<^verbatim>\<open>key_down('p')\<close> and a move since the call began, and no
  \<^verbatim>\<open>key_down('q')\<close>; the trigger key is \<^verbatim>\<open>'q'\<close> and the flag is set, but the key that
  is down is \<^verbatim>\<open>'p'\<close>.
\<close>

theorem set_trigger_key_rebind_in_race:
  "ui (schedule (config_init sound) before_rebind) = Ready
   \<and> trigger_held (shared (schedule (config_init sound) before_rebind))
   \<and> trigger_key (shared (schedule (config_init sound) before_rebind)) = ''p''
   \<and> map fst (calls (shared (schedule (config_init sound) before_rebind)))
       = [KeyDown ''p'', MoveMouse 0 2]
   \<and> ui (schedule (config_init sound) rebind_race) = Ready
   \<and> trigger_key (shared (schedule (config_init sound) rebind_race)) = ''q''
   \<and> trigger_held (shared (schedule (config_init sound) rebind_race))
   \<and> map fst (calls (shared (schedule (config_init sound) rebind_race)))
       = [KeyDown ''p'', MoveMouse 0 2, KeyUp ''p'', KeyDown ''p'', MoveMouse 0 2]
   \<and> keys_down (calls (shared (schedule (config_init sound) rebind_race))) = {''p''}"
  by (simp add: before_rebind_def rebind_race_def race_def step_simps keys_down_def)

text \<open>
  C1. The code where it breaks the claim: a backend that never raises, and the schedule
  \<open>race\<close>, which goes on from \<open>rebind_race\<close> with a call of \<^verbatim>\<open>stop\<close>. It ends with
  \<^verbatim>\<open>stop\<close> returned, the loop thread ended and the held flag false. The backend has
  received \<^verbatim>\<open>key_down('p')\<close>, a move, \<^verbatim>\<open>key_up('p')\<close> (from \<^verbatim>\<open>set_trigger_key\<close>),
  \<^verbatim>\<open>key_down('p')\<close> again (from the loop thread, which read the flag after it was cleared
  and the key before it was switched), a move, and \<^verbatim>\<open>key_up('q')\<close> (from \<^verbatim>\<open>stop\<close>): the
  second \<^verbatim>\<open>key_down('p')\<close> is never matched, and \<^verbatim>\<open>'p'\<close> stays down.
\<close>

theorem stop_leaves_key_down_in_race:
  "ui (schedule (config_init sound) race) = Ready
   \<and> lp (schedule (config_init sound) race) = Absent
   \<and> thread (shared (schedule (config_init sound) race)) = Finished
   \<and> \<not> trigger_held (shared (schedule (config_init sound) race))
   \<and> map fst (calls (shared (schedule (config_init sound) race)))
       = [KeyDown ''p'', MoveMouse 0 2, KeyUp ''p'', KeyDown ''p'', MoveMouse 0 2, KeyUp ''q'']
   \<and> keys_down (calls (shared (schedule (config_init sound) race))) = {''p''}"
  by (simp add: race_def step_simps keys_down_def)

text \<open>Runs taken one call or iteration at a time are runs of the interleaved threads:
  each thread is simply given all the steps it needs before the other moves.\<close>

lemma schedule_append: "schedule c (ms @ ms') = schedule (schedule c ms) ms'"
  by (simp add: schedule_def)

lemma schedule_Cons: "schedule c (m # ms) = schedule (step c m) ms"
  by (simp add: schedule_def)

lemma caller_finishes:
  "ui c = Busy m j \<Longrightarrow>
   \<exists>n. schedule c (replicate n Caller)
     = c\<lparr>shared := exec m (shared c), ui := (if j then Joining else Ready)\<rparr>"
proof (induction m arbitrary: c)
  case (Ret a)
  then have "schedule c (replicate 1 Caller)
      = c\<lparr>shared := exec (Ret a) (shared c), ui := (if j then Joining else Ready)\<rparr>"
    by (simp add: schedule_def exec_def)
  then show ?case by blast
next
  case (Atom u k)
  let ?c = "c\<lparr>shared := u (shared c), ui := Busy (k (shared c)) j\<rparr>"
  have s: "step c Caller = ?c"
    using Atom.prems by simp
  have "ui ?c = Busy (k (shared c)) j" by simp
  from Atom.IH [OF rangeI this] obtain n where
    "schedule ?c (replicate n Caller)
      = ?c\<lparr>shared := exec (k (shared c)) (shared ?c), ui := (if j then Joining else Ready)\<rparr>"
    by blast
  moreover have "schedule c (replicate (Suc n) Caller) = schedule ?c (replicate n Caller)"
    by (simp only: replicate.simps schedule_Cons s)
  ultimately have "schedule c (replicate (Suc n) Caller)
      = c\<lparr>shared := exec (Atom u k) (shared c), ui := (if j then Joining else Ready)\<rparr>"
    by (simp add: exec_def)
  then show ?case by blast
qed

lemma worker_finishes_body:
  "lp c = Body m \<Longrightarrow>
   \<exists>n. schedule c (replicate n (Worker env))
     = c\<lparr>shared := snd (run m (shared c)), lp := Head (fst (run m (shared c)))\<rparr>"
proof (induction m arbitrary: c)
  case (Ret l)
  then have "schedule c (replicate 1 (Worker env))
      = c\<lparr>shared := snd (run (Ret l) (shared c)), lp := Head (fst (run (Ret l) (shared c)))\<rparr>"
    by (simp add: schedule_def)
  then show ?case by blast
next
  case (Atom u k)
  let ?c = "c\<lparr>shared := u (shared c), lp := Body (k (shared c))\<rparr>"
  have s: "step c (Worker env) = ?c"
    using Atom.prems by simp
  have "lp ?c = Body (k (shared c))" by simp
  from Atom.IH [OF rangeI this] obtain n where
    "schedule ?c (replicate n (Worker env))
      = ?c\<lparr>shared := snd (run (k (shared c)) (shared ?c)),
            lp := Head (fst (run (k (shared c)) (shared ?c)))\<rparr>"
    by blast
  moreover have "schedule c (replicate (Suc n) (Worker env))
      = schedule ?c (replicate n (Worker env))"
    by (simp only: replicate.simps schedule_Cons s)
  ultimately have "schedule c (replicate (Suc n) (Worker env))
      = c\<lparr>shared := snd (run (Atom u k) (shared c)),
           lp := Head (fst (run (Atom u k) (shared c)))\<rparr>"
    by simp
  then show ?case by blast
qed

lemma worker_finishes_exit:
  "lp c = Leaving m \<Longrightarrow>
   \<exists>n. schedule c (replicate n (Worker env)) = c\<lparr>shared := exec m (shared c), lp := Absent\<rparr>"
proof (induction m arbitrary: c)
  case (Ret a)
  then have "schedule c (replicate 1 (Worker env))
      = c\<lparr>shared := exec (Ret a) (shared c), lp := Absent\<rparr>"
    by (simp add: schedule_def exec_def)
  then show ?case by blast
next
  case (Atom u k)
  let ?c = "c\<lparr>shared := u (shared c), lp := Leaving (k (shared c))\<rparr>"
  have s: "step c (Worker env) = ?c"
    using Atom.prems by simp
  have "lp ?c = Leaving (k (shared c))" by simp
  from Atom.IH [OF rangeI this] obtain n where
    "schedule ?c (replicate n (Worker env))
      = ?c\<lparr>shared := exec (k (shared c)) (shared ?c), lp := Absent\<rparr>"
    by blast
  moreover have "schedule c (replicate (Suc n) (Worker env))
      = schedule ?c (replicate n (Worker env))"
    by (simp only: replicate.simps schedule_Cons s)
  ultimately have "schedule c (replicate (Suc n) (Worker env))
      = c\<lparr>shared := exec (Atom u k) (shared c), lp := Absent\<rparr>"
    by (simp add: exec_def)
  then show ?case by blast
qed

lemma loop_exit_thread: "thread (exec loop_exit e) = Finished"
  by (simp add: loop_exit_def exec_def run_simps run_release_trigger)

lemma stop_head_thread: "thread (exec stop_head e) = thread e" "\<not> running (exec stop_head e)"
  by (simp_all add: stop_head_def exec_def run_simps run_release_trigger)

lemma call_is_interleaved:
  assumes "a \<noteq> Start" and "a \<noteq> Stop"
  shows "\<exists>ms. schedule (conf s) ms = conf (occur s (Call a))"
proof -
  obtain m where m: "invoke (conf s) a = (conf s)\<lparr>ui := Busy m False\<rparr>"
      and o: "occur s (Call a) = s\<lparr>eng := exec m (eng s)\<rparr>"
      and t: "thread (exec m (eng s)) = thread (eng s)"
    using assms
    by (cases a)
       (auto simp add: exec_release_trigger exec_set_trigger_key exec_ensure_trigger_down
          normalise_key_eq)
  have "ui ((conf s)\<lparr>ui := Busy m False\<rparr>) = Busy m False" by simp
  from caller_finishes [OF this] obtain n where
    "schedule ((conf s)\<lparr>ui := Busy m False\<rparr>) (replicate n Caller)
       = (conf s)\<lparr>shared := exec m (eng s), ui := Ready\<rparr>"
    by (auto simp add: conf_def)
  then have "schedule (conf s) (Invoke a # replicate n Caller) = conf (occur s (Call a))"
    using m o t by (simp add: schedule_Cons conf_def)
  then show ?thesis by blast
qed

lemma start_is_interleaved: "\<exists>ms. schedule (conf s) ms = conf (occur s (Call Start))"
proof -
  have "schedule (conf s) [Invoke Start] = conf (occur s (Call Start))"
    by (simp add: schedule_def conf_def exec_def start_def run_simps)
  then show ?thesis by blast
qed

lemma stop_is_interleaved: "\<exists>ms. schedule (conf s) ms = conf (occur s (Call Stop))"
proof -
  let ?e = "exec stop_head (eng s)"
  let ?c0 = "(conf s)\<lparr>ui := Busy stop_head True\<rparr>"
  have "ui ?c0 = Busy stop_head True" by simp
  from caller_finishes [OF this] obtain n where
    n: "schedule ?c0 (replicate n Caller) = (conf s)\<lparr>shared := ?e, ui := Joining\<rparr>"
    by (auto simp add: conf_def)
  let ?c1 = "(conf s)\<lparr>shared := ?e, ui := Joining\<rparr>"
  have pre: "schedule (conf s) (Invoke Stop # replicate n Caller) = ?c1"
    using n by (simp add: schedule_Cons conf_def)
  show ?thesis
  proof (cases "thread (eng s) = Alive")
    case False
    then have "schedule ?c1 [Caller] = conf (occur s (Call Stop))"
      by (simp add: schedule_def conf_def join_def stop_head_thread)
    with pre have "schedule (conf s) ((Invoke Stop # replicate n Caller) @ [Caller])
        = conf (occur s (Call Stop))"
      by (simp only: schedule_append)
    then show ?thesis by blast
  next
    case True
    let ?c2 = "?c1\<lparr>lp := Leaving loop_exit\<rparr>"
    have h: "step ?c1 (Worker (firing_tick 0)) = ?c2"
      using True by (simp add: conf_def stop_head_thread)
    have "lp ?c2 = Leaving loop_exit" by simp
    from worker_finishes_exit [OF this, of "firing_tick 0"] obtain k where
      k: "schedule ?c2 (replicate k (Worker (firing_tick 0)))
           = ?c2\<lparr>shared := exec loop_exit ?e, lp := Absent\<rparr>"
      by auto
    let ?c3 = "?c2\<lparr>shared := exec loop_exit ?e, lp := Absent\<rparr>"
    have "schedule ?c3 [Caller] = conf (occur s (Call Stop))"
      using True by (simp add: schedule_def conf_def join_def stop_head_thread loop_exit_thread)
    with k h pre have "schedule (conf s)
        ((Invoke Stop # replicate n Caller) @ (Worker (firing_tick 0) # replicate k (Worker (firing_tick 0)))
           @ [Caller])
        = conf (occur s (Call Stop))"
      by (simp only: schedule_append schedule_Cons)
    then show ?thesis by blast
  qed
qed

lemma tick_is_interleaved: "\<exists>ms. schedule (conf s) ms = conf (occur s (Tick env))"
proof (cases "thread (eng s) = Alive")
  case False
  then have "schedule (conf s) [] = conf (occur s (Tick env))"
    by (simp add: schedule_def)
  then show ?thesis by blast
next
  case True
  show ?thesis
  proof (cases "running (eng s)")
    case True
    let ?m = "loop_body env (loc s)"
    let ?c1 = "(conf s)\<lparr>lp := Body ?m\<rparr>"
    have h: "step (conf s) (Worker env) = ?c1"
      using True \<open>thread (eng s) = Alive\<close> by (simp add: conf_def)
    have "lp ?c1 = Body ?m" by simp
    from worker_finishes_body [OF this, of env] obtain n where
      n: "schedule ?c1 (replicate n (Worker env))
           = ?c1\<lparr>shared := snd (run ?m (eng s)), lp := Head (fst (run ?m (eng s)))\<rparr>"
      by (auto simp add: conf_def)
    have t: "thread (snd (run ?m (eng s))) = Alive"
    proof -
      have "keeps (\<lambda>e. thread e = Alive) ?m"
        unfolding loop_body_def Let_def split_beta
        by (intro keeps_bind keeps_if keeps_Ret keeps_load)
           (simp_all add: keeps_def run_ensure_trigger_down run_release_trigger
              run_backend_call run_sleep)
      then show ?thesis
        using \<open>thread (eng s) = Alive\<close> by (simp add: keeps_def)
    qed
    have "schedule (conf s) (Worker env # replicate n (Worker env)) = conf (occur s (Tick env))"
      using n h t True \<open>thread (eng s) = Alive\<close>
      by (simp add: schedule_Cons conf_def split_beta)
    then show ?thesis by blast
  next
    case False
    let ?c1 = "(conf s)\<lparr>lp := Leaving loop_exit\<rparr>"
    have h: "step (conf s) (Worker env) = ?c1"
      using False \<open>thread (eng s) = Alive\<close> by (simp add: conf_def)
    have "lp ?c1 = Leaving loop_exit" by simp
    from worker_finishes_exit [OF this, of env] obtain n where
      n: "schedule ?c1 (replicate n (Worker env))
           = ?c1\<lparr>shared := exec loop_exit (eng s), lp := Absent\<rparr>"
      by (auto simp add: conf_def)
    have "schedule (conf s) (Worker env # replicate n (Worker env)) = conf (occur s (Tick env))"
      using n h False \<open>thread (eng s) = Alive\<close>
      by (simp add: schedule_Cons conf_def loop_exit_thread)
    then show ?thesis by blast
  qed
qed

lemma occur_is_interleaved: "\<exists>ms. schedule (conf s) ms = conf (occur s ev)"
proof (cases ev)
  case (Call a)
  then show ?thesis
    using start_is_interleaved [of s] stop_is_interleaved [of s] call_is_interleaved [of a s]
    by (cases "a = Start \<or> a = Stop") auto
next
  case (Tick env)
  then show ?thesis using tick_is_interleaved [of s env] by simp
qed

lemma occur_all_is_interleaved: "\<exists>ms. schedule (conf s) ms = conf (occur_all s evs)"
proof (induction evs arbitrary: s)
  case Nil
  have "schedule (conf s) [] = conf (occur_all s [])"
    by (simp add: schedule_def occur_all_def)
  then show ?case by blast
next
  case (Cons ev evs)
  obtain ms where a: "schedule (conf s) ms = conf (occur s ev)"
    using occur_is_interleaved by blast
  obtain ms' where b: "schedule (conf (occur s ev)) ms' = conf (occur_all (occur s ev) evs)"
    using Cons.IH by blast
  have "schedule (conf s) (ms @ ms') = conf (occur_all s (ev # evs))"
    using a b by (simp add: schedule_append occur_all_def)
  then show ?case by blast
qed

end
